theory Spec2Isabelle
  imports Complex_Main "HOL-Library.Word"
begin

section \<open>Data model\<close>

text \<open>
  The loaders are TypeScript. A JavaScript \<open>number\<close> is modelled by an exact rational
  (\<^typ>\<open>rat\<close>), or by \<^typ>\<open>int\<close> and \<^typ>\<open>nat\<close> where the quantity is a count; the
  rounding of binary floating point is not modelled. Where the code can produce
  \<open>NaN\<close> or an infinity (a division by a record duration of zero, \<open>Math.max()\<close> of
  no arguments) the definitions below name that case. A \<open>Date\<close> is modelled by its time
  value \<open>getTime()\<close>, in milliseconds. A string is a \<^typ>\<open>string\<close>; characters
  outside ASCII are written as their UTF-8 bytes, which preserves equality of strings.
\<close>

datatype error =
  UnexpectedRecordDuration rat
  | InvalidSpO2Header
  | TypeError
  | RangeError

text \<open>\<open>EDFSignal\<close>, \<open>EDFAnnotation\<close> and \<open>EDFHeader\<close> of the container codec.\<close>

record edf_signal =
  label :: string
  transducerType :: string
  physicalDimension :: string
  physicalMin :: rat
  physicalMax :: rat
  digitalMin :: rat
  digitalMax :: rat
  prefiltering :: string
  samplesPerRecord :: int
  reserved :: "string option"

record edf_annotation =
  onset :: rat
  duration :: "rat option"
  annotation :: string

record edf_header =
  patientId :: string
  recordingId :: string
  startTime :: rat
  dataRecords :: int
  recordDuration :: rat
  signalCount :: int
  signals :: "edf_signal list"
  headerReserved :: "string option"

text \<open>\<open>EDFFile\<close> of \<open>Loader.ts\<close>, and \<open>EDFFileWithDuration\<close> of \<open>Utils.ts\<close>.\<close>

record edf_file =
  header :: edf_header
  "values" :: "rat list list"
  annotations :: "edf_annotation list"


section \<open>Strings\<close>

definition toLowerCase :: "string \<Rightarrow> string" where
  "toLowerCase s =
     map (\<lambda>c. let n = (of_char c :: nat) in if 65 \<le> n \<and> n \<le> 90 then char_of (n + 32) else c) s"

fun startsWith :: "string \<Rightarrow> string \<Rightarrow> bool" where
  "startsWith s [] = True"
| "startsWith [] (p # ps) = False"
| "startsWith (c # cs) (p # ps) = (c = p \<and> startsWith cs ps)"


fun includesStr :: "string \<Rightarrow> string \<Rightarrow> bool" where
  "includesStr [] sub = (sub = [])"
| "includesStr (c # cs) sub = (startsWith (c # cs) sub \<or> includesStr cs sub)"

section \<open>Utils.ts: canonicalizeLabels\<close>

text \<open>
  A \<open>Map<string, string[]>\<close> is a list of its entries in insertion order. The callback of
  \<open>signals.map\<close> walks the entries and returns at the first canonical name one of whose
  aliases is the label.
\<close>

fun canonicalizeSignal :: "(string \<times> string list) list \<Rightarrow> edf_signal \<Rightarrow> edf_signal" where
  "canonicalizeSignal [] signal = signal"
| "canonicalizeSignal ((canonical, aliases) # entries) signal =
     (if list_ex (\<lambda>alias. alias = label signal) aliases
      then signal\<lparr>label := canonical\<rparr>
      else canonicalizeSignal entries signal)"

definition canonicalizeLabels ::
  "edf_signal list \<Rightarrow> (string \<times> string list) list \<Rightarrow> edf_signal list" where
  "canonicalizeLabels sigs synonyms = map (canonicalizeSignal synonyms) sigs"

section \<open>ResMedLoader.ts: the synonym table\<close>

definition CANONICAL_NAMES :: "(string \<times> string list) list" where
  "CANONICAL_NAMES =
    [(''Flow'', [''Flow.40ms'']),
     (''MaskPressure'', [''Press.40ms'', ''MaskPress.2s'']),
     (''RespEvent'', [''TrigCycEvt.40ms'']),
     (''InspPressure'', [''Press.2s'', ''IPAP'', ''S.BL.IPAP'', ''S.S.IPAP'']),
     (''ExpPressure'', [''EprPress.2s'', ''EPAP'', ''S.BL.EPAP'', ''EPRPress.2s'', ''S.S.EPAP'']),
     (''Leak'',
       [''Leck'', ''Fuites'', ''Fuite'', ''Fuga'',
        [CHR 0xE6, CHR 0xB3, CHR 0x84, CHR 0xE6, CHR 0xBC, CHR 0x8F, CHR 0xE6, CHR 0xB0, CHR 0x94],
        ''Lekk'',
        [CHR ''L'', CHR 0xC3, CHR 0xA4, CHR ''c'', CHR ''k''],
        [CHR ''L'', CHR 0xC3, CHR 0x83, CHR 0xC2, CHR 0xA4, CHR ''c'', CHR ''k''],
        ''Leak.2s'',
        [CHR ''S'', CHR 0xC4, CHR 0xB1, CHR ''z'', CHR 0xC4, CHR 0xB1, CHR ''n'', CHR ''t'',
         CHR 0xC4, CHR 0xB1]]),
     (''RespRate'', [''AF'', ''FR'', ''RespRate.2s'']),
     (''MinuteVent'', [''VM'', ''MinVent.2s'']),
     (''TidalVolume'', [''VC'', ''TidVol.2s'']),
     (''InspExpRatio'', [''IERatio.2s'']),
     (''Snore'', [''Snore.2s'']),
     (''FlowLim'', [''FlowLim.2s'']),
     (''InspTime'', [''Ti.2s'', ''B5ITime.2s'']),
     (''ExpTime'', [''B5ETime.2s'']),
     (''TgtMinuteVent'', [''TgtVent.2s'']),
     (''Pulse'', [''Puls'', ''Pouls'', ''Pols'', ''Pulse.1s'', ''Nabiz'']),
     (''SpO2'', [''SpO2.1s''])]"


section \<open>Numbers that need not be finite\<close>


definition jsTrunc :: "rat \<Rightarrow> int" where
  "jsTrunc q = (if 0 \<le> q then \<lfloor>q\<rfloor> else \<lceil>q\<rceil>)"








section \<open>Arrays\<close>

text \<open>\<open>xs[i]\<close> is \<open>undefined\<close> out of range; \<open>None\<close> stands for it.\<close>

definition arrayGet :: "'a list \<Rightarrow> nat \<Rightarrow> 'a option" where
  "arrayGet xs i = (if i < length xs then Some (xs ! i) else None)"



text \<open>\<open>xs.splice(index, 1)\<close> with \<open>index\<close> in range.\<close>

definition splice1 :: "nat \<Rightarrow> 'a list \<Rightarrow> 'a list" where
  "splice1 i xs = take i xs @ drop (Suc i) xs"

text \<open>\<open>xs.indexOf(x)\<close>; \<open>None\<close> is \<open>-1\<close>.\<close>

fun indexOf :: "'a list \<Rightarrow> 'a \<Rightarrow> nat option" where
  "indexOf [] x = None"
| "indexOf (y # ys) x = (if y = x then Some 0 else map_option Suc (indexOf ys x))"

section \<open>Utils.ts: filterSignals\<close>



section \<open>Utils.ts: findCommonTimeRange\<close>



section \<open>Utils.ts: mergeSignals\<close>












section \<open>ResMedLoader.ts\<close>












text \<open>
  \<open>postProcess\<close> runs the same block for \<open>"spo2"\<close> and then for \<open>"pulse"\<close>: the first signal
  whose lower-cased label includes the keyword is looked up, and removed with its values
  when none of them is positive. \<open>values[index]\<close> of a missing array raises a \<open>TypeError\<close>.
\<close>

definition removeUnfitted :: "string \<Rightarrow> edf_file \<Rightarrow> error + edf_file" where
  "removeUnfitted keyword file =
     (case find (\<lambda>sig. includesStr (toLowerCase (label sig)) keyword) (signals (header file)) of
        None \<Rightarrow> Inr file
      | Some found \<Rightarrow>
         (case indexOf (signals (header file)) found of
            None \<Rightarrow> Inl TypeError
          | Some index \<Rightarrow>
             (case arrayGet (values file) index of
                None \<Rightarrow> Inl TypeError
              | Some vals \<Rightarrow>
                 (let hasValidValues = list_ex (\<lambda>v. 0 < v) vals
                  in if \<not> hasValidValues
                     then Inr (file\<lparr>header := (header file)
                                     \<lparr>signals := splice1 index (signals (header file)),
                                      signalCount := signalCount (header file) - 1\<rparr>,
                                   values := splice1 index (values file)\<rparr>)
                     else Inr file))))"

definition postProcess :: "edf_file \<Rightarrow> error + edf_file" where
  "postProcess file =
     (case removeUnfitted ''spo2'' file of
        Inl e \<Rightarrow> Inl e
      | Inr file1 \<Rightarrow> removeUnfitted ''pulse'' file1)"

section \<open>SpO2AssistantLoader.ts\<close>

type_synonym byte = "8 word"

text \<open>
  \<open>DataView\<close> reads. An offset is truncated to an integer, and a read that does not lie
  within the buffer raises a \<open>RangeError\<close>. The multi-byte reads are little-endian.
\<close>

definition getUint8 :: "byte list \<Rightarrow> rat \<Rightarrow> error + nat" where
  "getUint8 buf byteOffset =
     (let i = jsTrunc byteOffset
      in if i < 0 \<or> int (length buf) < i + 1 then Inl RangeError else Inr (unat (buf ! nat i)))"

definition getUintLE :: "nat \<Rightarrow> byte list \<Rightarrow> nat \<Rightarrow> error + nat" where
  "getUintLE n buf byteOffset =
     (if length buf < byteOffset + n then Inl RangeError
      else Inr (foldr (\<lambda>b acc. unat b + 256 * acc) (take n (drop byteOffset buf)) 0))"

definition bindE :: "error + 'a \<Rightarrow> ('a \<Rightarrow> error + 'b) \<Rightarrow> error + 'b" where
  "bindE r f = (case r of Inl e \<Rightarrow> Inl e | Inr x \<Rightarrow> f x)"

text \<open>
  \<open>parseHeader\<close>; \<open>None\<close> is \<open>null\<close>. The start is kept as the six fields read (year, month,
  day, hour, minute, second), which the code turns into a \<open>Date\<close> of the local time zone.
\<close>

record spo2_header_info =
  hiStart :: "nat \<times> nat \<times> nat \<times> nat \<times> nat \<times> nat"
  hiSamples :: nat
  hiHeaderOffset :: nat

definition parseHeader :: "byte list \<Rightarrow> error + spo2_header_info option" where
  "parseHeader buf =
     bindE (getUintLE 2 buf 0) (\<lambda>headerOffset.
       if length buf < headerOffset + 228 then Inr None
       else
         bindE (getUintLE 4 buf (headerOffset + 200)) (\<lambda>year.
         bindE (getUintLE 4 buf (headerOffset + 204)) (\<lambda>month.
         bindE (getUintLE 4 buf (headerOffset + 208)) (\<lambda>day.
         bindE (getUintLE 4 buf (headerOffset + 212)) (\<lambda>hour.
         bindE (getUintLE 4 buf (headerOffset + 216)) (\<lambda>minute.
         bindE (getUintLE 4 buf (headerOffset + 220)) (\<lambda>second.
         bindE (getUintLE 4 buf (headerOffset + 224)) (\<lambda>samples.
           Inr (Some \<lparr>hiStart = (year, month, day, hour, minute, second),
                      hiSamples = samples, hiHeaderOffset = headerOffset\<rparr>)))))))))"

text \<open>
  The loop of \<open>loadSession\<close> over the records, from the iterations left and the cursor; it
  returns \<open>valuesSpO2\<close> and \<open>valuesPulse\<close>. The progress callback is not modelled.
\<close>

fun readRecords :: "byte list \<Rightarrow> rat \<Rightarrow> nat \<Rightarrow> rat \<Rightarrow> error + (rat list \<times> rat list)" where
  "readRecords buf bytesPerRecord 0 cursor = Inr ([], [])"
| "readRecords buf bytesPerRecord (Suc n) cursor =
     (let cursor1 = (if 2 < bytesPerRecord then cursor + (bytesPerRecord - 2) else cursor)
      in if of_nat (length buf) < cursor1 + 2 then Inr ([], [])
         else
           bindE (getUint8 buf cursor1) (\<lambda>spo2.
           bindE (getUint8 buf (cursor1 + 1)) (\<lambda>pulse.
           bindE (readRecords buf bytesPerRecord n (cursor1 + 2)) (\<lambda>(valuesSpO2, valuesPulse).
             if spo2 = 0x7f \<and> pulse = 0xff
             then Inr (0 # valuesSpO2, 0 # valuesPulse)
             else Inr (of_nat spo2 # valuesSpO2, of_nat pulse # valuesPulse)))))"

text \<open>
  \<open>loadSession\<close> up to the sample arrays \<open>[valuesSpO2, valuesPulse]\<close> of the result; its
  header is built from the start and constants. The argument is the buffer of the first
  file of the session. With no sample the loop body, and with it \<open>bytesPerRecord\<close>, is
  never used.
\<close>

definition spo2LoadSession :: "byte list \<Rightarrow> error + rat list list" where
  "spo2LoadSession buf =
     bindE (parseHeader buf) (\<lambda>headerInfo.
       case headerInfo of
         None \<Rightarrow> Inl InvalidSpO2Header
       | Some info \<Rightarrow>
          (let cursor = of_nat (hiHeaderOffset info + 228);
               fileSize = of_nat (length buf);
               bytesPerRecord = (fileSize - cursor) / of_nat (hiSamples info)
           in bindE (readRecords buf bytesPerRecord (hiSamples info) cursor)
                (\<lambda>(valuesSpO2, valuesPulse). Inr [valuesSpO2, valuesPulse])))"


section \<open>Notions used in the proofs\<close>




text \<open>
  The cursor at which the loop of the oximetry loader reads record \<open>k\<close>, when it starts
  at \<open>cursor\<close>: before each read the cursor is moved by \<open>bytesPerRecord - 2\<close> if that is
  positive, and after each read by 2.
\<close>

definition recordCursor :: "rat \<Rightarrow> rat \<Rightarrow> nat \<Rightarrow> rat" where
  "recordCursor cursor bytesPerRecord k =
     cursor + of_nat (Suc k) * (if 2 < bytesPerRecord then bytesPerRecord - 2 else 0) + of_nat k * 2"

text \<open>The values pushed for a record whose two bytes are \<open>spo2\<close> and \<open>pulse\<close>.\<close>

definition decodedSpO2 :: "nat \<Rightarrow> nat \<Rightarrow> rat" where
  "decodedSpO2 spo2 pulse = (if spo2 = 0x7f \<and> pulse = 0xff then 0 else of_nat spo2)"

definition decodedPulse :: "nat \<Rightarrow> nat \<Rightarrow> rat" where
  "decodedPulse spo2 pulse = (if spo2 = 0x7f \<and> pulse = 0xff then 0 else of_nat pulse)"

section \<open>Concrete inputs\<close>

definition exampleSignal :: "string \<Rightarrow> int \<Rightarrow> edf_signal" where
  "exampleSignal l n =
     \<lparr>label = l, transducerType = [], physicalDimension = [],
      physicalMin = 0, physicalMax = 1, digitalMin = 0, digitalMax = 1,
      prefiltering = [], samplesPerRecord = n, reserved = Some []\<rparr>"

definition exampleHeader ::
  "rat \<Rightarrow> int \<Rightarrow> rat \<Rightarrow> edf_signal list \<Rightarrow> string option \<Rightarrow> edf_header" where
  "exampleHeader start n recDuration sigs res =
     \<lparr>patientId = [], recordingId = [], startTime = start, dataRecords = n,
      recordDuration = recDuration, signalCount = int (length sigs), signals = sigs,
      headerReserved = res\<rparr>"

















text \<open>
  A file with an oximeter channel that never reads anything, and a pulse channel whose
  samples are at most 0 but for one sample of 5; and the same file without the former.
\<close>

definition exampleOximetry :: edf_file where
  "exampleOximetry =
     \<lparr>header = exampleHeader 0 1 60
                 [exampleSignal ''Flow'' 2, exampleSignal ''SpO2'' 4, exampleSignal ''Pulse'' 4] None,
      values = [[1, 2], [0, 0, 0, 0], [0, 0, - 1, 5]],
      annotations = []\<rparr>"

definition exampleOximetryKept :: edf_file where
  "exampleOximetryKept =
     \<lparr>header = (exampleHeader 0 1 60 [exampleSignal ''Flow'' 2, exampleSignal ''Pulse'' 4] None)
                 \<lparr>signalCount := 2\<rparr>,
      values = [[1, 2], [0, 0, - 1, 5]],
      annotations = []\<rparr>"

text \<open>
  An oximetry file with its header block at offset 0 and one sample in a record of three
  bytes, 10, 20 and 30.
\<close>

definition exampleThreeBytes :: "byte list" where
  "exampleThreeBytes = replicate 224 0 @ [1, 0, 0, 0] @ [10, 20, 30]"


section \<open>Properties of canonicalizeLabels\<close>

lemma canonicalizeSignal_unmatched:
  "\<forall>(c, as) \<in> set M. label s \<notin> set as \<Longrightarrow> canonicalizeSignal M s = s"
  by (induction M) (auto simp: list_ex_iff)

lemma canonicalizeSignal_matched:
  "\<exists>(c, as) \<in> set M. label s \<in> set as \<Longrightarrow>
   \<exists>(c, as) \<in> set M. label s \<in> set as \<and> canonicalizeSignal M s = s\<lparr>label := c\<rparr>"
proof (induction M)
  case Nil
  then show ?case by simp
next
  case (Cons e M)
  obtain c as where e: "e = (c, as)" by (cases e)
  show ?case
  proof (cases "label s \<in> set as")
    case True
    then show ?thesis by (auto simp: e list_ex_iff)
  next
    case False
    with Cons.prems have "\<exists>(c, as) \<in> set M. label s \<in> set as" by (auto simp: e)
    from Cons.IH[OF this] False show ?thesis by (auto simp: e list_ex_iff)
  qed
qed

lemma canonical_not_alias:
  "\<forall>(c, as) \<in> set CANONICAL_NAMES. \<forall>(c', as') \<in> set CANONICAL_NAMES. c \<notin> set as'"
  by (simp add: CANONICAL_NAMES_def)

lemma canonicalizeSignal_idem:
  "canonicalizeSignal CANONICAL_NAMES (canonicalizeSignal CANONICAL_NAMES s)
    = canonicalizeSignal CANONICAL_NAMES s"
proof (cases "\<exists>(c, as) \<in> set CANONICAL_NAMES. label s \<in> set as")
  case True
  then obtain c as where m: "(c, as) \<in> set CANONICAL_NAMES"
    and eq: "canonicalizeSignal CANONICAL_NAMES s = s\<lparr>label := c\<rparr>"
    using canonicalizeSignal_matched[of CANONICAL_NAMES s] by blast
  have "\<forall>(c', as') \<in> set CANONICAL_NAMES. label (s\<lparr>label := c\<rparr>) \<notin> set as'"
    using canonical_not_alias m by fastforce
  then show ?thesis unfolding eq by (rule canonicalizeSignal_unmatched)
next
  case False
  then have "canonicalizeSignal CANONICAL_NAMES s = s"
    by (intro canonicalizeSignal_unmatched) blast
  then show ?thesis by simp
qed

text \<open>
  C10. \<open>canonicalizeLabels\<close> keeps the number and the order of the signals and every field
  but the label. A label that is, character for character, an alias of some canonical name
  is replaced by the canonical name of such an entry; a label that is no alias of any
  entry leaves the signal as it is. With the synonym table of the ResMed loader,
  canonicalizing twice gives what canonicalizing once gives.
\<close>

theorem canonicalizeLabels_exact_idempotent:
  "length (canonicalizeLabels sigs M) = length sigs
   \<and> (\<forall>i < length sigs.
        (canonicalizeLabels sigs M ! i)\<lparr>label := label (sigs ! i)\<rparr> = sigs ! i
        \<and> ((\<exists>(c, as) \<in> set M. label (sigs ! i) \<in> set as) \<longrightarrow>
             (\<exists>(c, as) \<in> set M. label (sigs ! i) \<in> set as
                \<and> canonicalizeLabels sigs M ! i = (sigs ! i)\<lparr>label := c\<rparr>))
        \<and> ((\<forall>(c, as) \<in> set M. label (sigs ! i) \<notin> set as) \<longrightarrow>
             canonicalizeLabels sigs M ! i = sigs ! i))
   \<and> canonicalizeLabels (canonicalizeLabels sigs CANONICAL_NAMES) CANONICAL_NAMES
       = canonicalizeLabels sigs CANONICAL_NAMES"
proof (intro conjI allI impI)
  show "length (canonicalizeLabels sigs M) = length sigs"
    by (simp add: canonicalizeLabels_def)
next
  fix i assume i: "i < length sigs"
  show "(canonicalizeLabels sigs M ! i)\<lparr>label := label (sigs ! i)\<rparr> = sigs ! i"
  proof (cases "\<exists>(c, as) \<in> set M. label (sigs ! i) \<in> set as")
    case True
    from canonicalizeSignal_matched[OF this] show ?thesis
      using i by (auto simp: canonicalizeLabels_def)
  next
    case False
    then have "canonicalizeSignal M (sigs ! i) = sigs ! i"
      by (intro canonicalizeSignal_unmatched) blast
    then show ?thesis using i by (simp add: canonicalizeLabels_def)
  qed
next
  fix i assume i: "i < length sigs"
    and m: "\<exists>(c, as) \<in> set M. label (sigs ! i) \<in> set as"
  from canonicalizeSignal_matched[OF m] i
  show "\<exists>(c, as) \<in> set M. label (sigs ! i) \<in> set as
          \<and> canonicalizeLabels sigs M ! i = (sigs ! i)\<lparr>label := c\<rparr>"
    by (simp add: canonicalizeLabels_def)
next
  fix i assume i: "i < length sigs"
    and m: "\<forall>(c, as) \<in> set M. label (sigs ! i) \<notin> set as"
  from canonicalizeSignal_unmatched[OF m] i
  show "canonicalizeLabels sigs M ! i = sigs ! i"
    by (simp add: canonicalizeLabels_def)
next
  show "canonicalizeLabels (canonicalizeLabels sigs CANONICAL_NAMES) CANONICAL_NAMES
       = canonicalizeLabels sigs CANONICAL_NAMES"
    by (simp add: canonicalizeLabels_def canonicalizeSignal_idem)
qed


theorem canonicalizeLabels_exact_idempotent_witness:
  "(1::nat) < length [exampleSignal ''Flow.40ms'' 1500, exampleSignal ''flow.40ms'' 30]
   \<and> (\<exists>(c, as) \<in> set CANONICAL_NAMES. ''Flow.40ms'' \<in> set as)
   \<and> ''flow.40ms'' \<notin> set (concat (map snd CANONICAL_NAMES))
   \<and> canonicalizeLabels [exampleSignal ''Flow.40ms'' 1500, exampleSignal ''flow.40ms'' 30]
        CANONICAL_NAMES
      = [exampleSignal ''Flow'' 1500, exampleSignal ''flow.40ms'' 30]
   \<and> canonicalizeLabels [exampleSignal ''Flow'' 1500, exampleSignal ''flow.40ms'' 30]
        CANONICAL_NAMES
      = [exampleSignal ''Flow'' 1500, exampleSignal ''flow.40ms'' 30]
   \<and> canonicalizeLabels [exampleSignal ''Flow.40ms'' 1500, exampleSignal ''flow.40ms'' 30]
        CANONICAL_NAMES ! 1
      = [exampleSignal ''Flow.40ms'' 1500, exampleSignal ''flow.40ms'' 30] ! 1"
proof -
  let ?xs = "[exampleSignal ''Flow.40ms'' 1500, exampleSignal ''flow.40ms'' 30]"
  have len: "(1::nat) < length ?xs" by simp
  have m: "\<exists>(c, as) \<in> set CANONICAL_NAMES. ''Flow.40ms'' \<in> set as" by code_simp
  have u: "''flow.40ms'' \<notin> set (concat (map snd CANONICAL_NAMES))" by code_simp
  then have u': "\<forall>(c, as) \<in> set CANONICAL_NAMES. label (?xs ! 1) \<notin> set as"
    by (auto simp: exampleSignal_def)
  from canonicalizeLabels_exact_idempotent[of ?xs CANONICAL_NAMES] len u'
  have second: "canonicalizeLabels ?xs CANONICAL_NAMES ! 1 = ?xs ! 1" by blast
  have once: "canonicalizeLabels ?xs CANONICAL_NAMES
      = [exampleSignal ''Flow'' 1500, exampleSignal ''flow.40ms'' 30]" by code_simp
  have "canonicalizeLabels (canonicalizeLabels ?xs CANONICAL_NAMES) CANONICAL_NAMES
      = canonicalizeLabels ?xs CANONICAL_NAMES"
    using canonicalizeLabels_exact_idempotent[of ?xs CANONICAL_NAMES] by (elim conjE)
  then have twice: "canonicalizeLabels [exampleSignal ''Flow'' 1500, exampleSignal ''flow.40ms'' 30]
        CANONICAL_NAMES = [exampleSignal ''Flow'' 1500, exampleSignal ''flow.40ms'' 30]"
    unfolding once .
  from len m u once twice second show ?thesis by (intro conjI)
qed


section \<open>Properties of findCommonTimeRange\<close>







section \<open>A merge evaluated\<close>


section \<open>Properties of mergeSignals: the channel chosen for a label\<close>

subsection \<open>The head of a stable sort\<close>




subsection \<open>The grouping by label\<close>

lemma fold_fold_concat: "fold (\<lambda>x. fold f (g x)) xs m = fold f (concat (map g xs)) m"
  by (induction xs arbitrary: m) simp_all








subsection \<open>The candidate channels\<close>




subsection \<open>The channels of the result\<close>









section \<open>Properties of mergeSignals: annotations\<close>







section \<open>Properties of mergeSignals: the number of samples extracted\<close>

lemma jsTrunc_of_int [simp]: "jsTrunc (of_int z) = z"
  by (simp add: jsTrunc_def)








section \<open>Properties of the ResMed loader\<close>











section \<open>Properties of postProcess\<close>

lemma find_indexOf:
  "find P xs = Some x \<Longrightarrow>
   \<exists>i. indexOf xs x = Some i \<and> i < length xs \<and> xs ! i = x \<and> P x \<and> (\<forall>j < i. \<not> P (xs ! j))"
proof (induction xs)
  case Nil
  then show ?case by simp
next
  case (Cons y ys)
  show ?case
  proof (cases "P y")
    case True
    with Cons.prems show ?thesis by (intro exI[of _ 0]) simp
  next
    case False
    with Cons.prems have f: "find P ys = Some x" by simp
    from Cons.IH[OF f] obtain i where i: "indexOf ys x = Some i" "i < length ys" "ys ! i = x"
      "P x" "\<forall>j < i. \<not> P (ys ! j)"
      by blast
    from False i(4) have ne: "y \<noteq> x" by auto
    have "\<forall>j < Suc i. \<not> P ((y # ys) ! j)"
    proof (intro allI impI)
      fix j assume "j < Suc i"
      then show "\<not> P ((y # ys) ! j)" using False i(5) by (cases j) simp_all
    qed
    with ne i show ?thesis by (intro exI[of _ "Suc i"]) simp
  qed
qed

lemma splice1_nth:
  assumes "i < length xs"
  shows "length (splice1 i xs) = length xs - 1"
    and "\<forall>j < i. splice1 i xs ! j = xs ! j"
    and "\<forall>j. i \<le> j \<and> Suc j < length xs \<longrightarrow> splice1 i xs ! j = xs ! Suc j"
proof -
  show "length (splice1 i xs) = length xs - 1" using assms by (simp add: splice1_def)
  show "\<forall>j < i. splice1 i xs ! j = xs ! j"
    using assms by (simp add: splice1_def nth_append)
  show "\<forall>j. i \<le> j \<and> Suc j < length xs \<longrightarrow> splice1 i xs ! j = xs ! Suc j"
  proof (intro allI impI)
    fix j assume j: "i \<le> j \<and> Suc j < length xs"
    then have "splice1 i xs ! j = drop (Suc i) xs ! (j - i)"
      using assms by (simp add: splice1_def nth_append min_def)
    also have "\<dots> = xs ! (Suc i + (j - i))" using j by (intro nth_drop) simp
    also have "Suc i + (j - i) = Suc j" using j by simp
    finally show "splice1 i xs ! j = xs ! Suc j" .
  qed
qed

lemma removeUnfitted_none:
  "find (\<lambda>sig. includesStr (toLowerCase (label sig)) keyword) (signals (header file)) = None \<Longrightarrow>
   removeUnfitted keyword file = Inr file"
  by (simp add: removeUnfitted_def)

lemma removeUnfitted_found:
  assumes f: "find (\<lambda>sig. includesStr (toLowerCase (label sig)) keyword) (signals (header file)) = Some sig"
    and wf: "length (signals (header file)) \<le> length (values file)"
  shows "\<exists>i. i < length (signals (header file)) \<and> signals (header file) ! i = sig
      \<and> (\<forall>j < i. \<not> includesStr (toLowerCase (label (signals (header file) ! j))) keyword)
      \<and> removeUnfitted keyword file =
          Inr (if \<exists>v \<in> set (values file ! i). 0 < v then file
               else file\<lparr>header := (header file)
                                     \<lparr>signals := splice1 i (signals (header file)),
                                      signalCount := signalCount (header file) - 1\<rparr>,
                          values := splice1 i (values file)\<rparr>)"
proof -
  from find_indexOf[OF f] obtain i where i: "indexOf (signals (header file)) sig = Some i"
    "i < length (signals (header file))" "signals (header file) ! i = sig"
    "\<forall>j < i. \<not> includesStr (toLowerCase (label (signals (header file) ! j))) keyword"
    by blast
  from i(2) wf have "arrayGet (values file) i = Some (values file ! i)" by (simp add: arrayGet_def)
  with f i(1) have "removeUnfitted keyword file =
          Inr (if \<exists>v \<in> set (values file ! i). 0 < v then file
               else file\<lparr>header := (header file)
                                     \<lparr>signals := splice1 i (signals (header file)),
                                      signalCount := signalCount (header file) - 1\<rparr>,
                          values := splice1 i (values file)\<rparr>)"
    by (simp add: removeUnfitted_def list_ex_iff Let_def)
  with i show ?thesis by blast
qed

lemma removeUnfitted_wf:
  assumes wf: "length (signals (header file)) \<le> length (values file)"
  shows "\<exists>out. removeUnfitted keyword file = Inr out
           \<and> length (signals (header out)) \<le> length (values out)"
proof (cases "find (\<lambda>sig. includesStr (toLowerCase (label sig)) keyword) (signals (header file))")
  case None
  with wf show ?thesis by (simp add: removeUnfitted_none)
next
  case (Some sig)
  from removeUnfitted_found[OF Some wf] obtain i where
    i: "i < length (signals (header file))"
    and r: "removeUnfitted keyword file =
          Inr (if \<exists>v \<in> set (values file ! i). 0 < v then file
               else file\<lparr>header := (header file)
                                     \<lparr>signals := splice1 i (signals (header file)),
                                      signalCount := signalCount (header file) - 1\<rparr>,
                          values := splice1 i (values file)\<rparr>)"
    by blast
  from i wf have "length (splice1 i (signals (header file))) \<le> length (splice1 i (values file))"
    by (simp add: splice1_nth(1))
  with r wf show ?thesis by auto
qed

text \<open>
  C9. \<open>postProcess\<close> applies one rule for the keyword \<open>spo2\<close> and then, to the file
  that results, for the keyword \<open>pulse\<close>; with an array of values for each signal neither
  raises. The rule for a keyword looks at the first signal \<open>i\<close> whose lower-cased label
  includes the keyword. With no such signal the file is returned as it is. Otherwise the
  file is returned as it is if and only if some sample of that channel is greater than 0;
  when none is, signal \<open>i\<close> and its array of values are removed, the signals and arrays
  before them keep their places, those after them move down by one, the signal count
  drops by 1, and the other fields of the header and the annotations are unchanged.
\<close>

theorem postProcess_optional_channel:
  assumes wf: "length (signals (header file)) \<le> length (values file)"
  shows "(\<exists>mid out. removeUnfitted ''spo2'' file = Inr mid
            \<and> length (signals (header mid)) \<le> length (values mid)
            \<and> removeUnfitted ''pulse'' mid = Inr out
            \<and> postProcess file = Inr out)
   \<and> (\<forall>keyword.
         find (\<lambda>sig. includesStr (toLowerCase (label sig)) keyword) (signals (header file)) = None \<longrightarrow>
         removeUnfitted keyword file = Inr file)
   \<and> (\<forall>keyword sig.
         find (\<lambda>sig. includesStr (toLowerCase (label sig)) keyword) (signals (header file)) = Some sig \<longrightarrow>
         (\<exists>i out.
             i < length (signals (header file)) \<and> signals (header file) ! i = sig
           \<and> (\<forall>j < i. \<not> includesStr (toLowerCase (label (signals (header file) ! j))) keyword)
           \<and> removeUnfitted keyword file = Inr out
           \<and> ((out = file) = (\<exists>v \<in> set (values file ! i). 0 < v))
           \<and> (\<not> (\<exists>v \<in> set (values file ! i). 0 < v) \<longrightarrow>
                 length (signals (header out)) = length (signals (header file)) - 1
               \<and> length (values out) = length (values file) - 1
               \<and> (\<forall>j < i. signals (header out) ! j = signals (header file) ! j
                          \<and> values out ! j = values file ! j)
               \<and> (\<forall>j. i \<le> j \<and> Suc j < length (signals (header file)) \<longrightarrow>
                        signals (header out) ! j = signals (header file) ! Suc j)
               \<and> (\<forall>j. i \<le> j \<and> Suc j < length (values file) \<longrightarrow>
                        values out ! j = values file ! Suc j)
               \<and> signalCount (header out) = signalCount (header file) - 1
               \<and> (header out)\<lparr>signals := signals (header file),
                               signalCount := signalCount (header file)\<rparr> = header file
               \<and> annotations out = annotations file)))"
proof (intro conjI allI impI)
  from removeUnfitted_wf[OF wf, of "''spo2''"] obtain mid where
    mid: "removeUnfitted ''spo2'' file = Inr mid" "length (signals (header mid)) \<le> length (values mid)"
    by blast
  from removeUnfitted_wf[OF mid(2), of "''pulse''"] obtain out where
    out: "removeUnfitted ''pulse'' mid = Inr out"
    by blast
  from mid out have "postProcess file = Inr out" by (simp add: postProcess_def)
  with mid out show "\<exists>mid out. removeUnfitted ''spo2'' file = Inr mid
            \<and> length (signals (header mid)) \<le> length (values mid)
            \<and> removeUnfitted ''pulse'' mid = Inr out
            \<and> postProcess file = Inr out"
    by blast
next
  fix keyword
  assume "find (\<lambda>sig. includesStr (toLowerCase (label sig)) keyword) (signals (header file)) = None"
  then show "removeUnfitted keyword file = Inr file" by (rule removeUnfitted_none)
next
  fix keyword sig
  assume f: "find (\<lambda>sig. includesStr (toLowerCase (label sig)) keyword) (signals (header file)) = Some sig"
  from removeUnfitted_found[OF f wf] obtain i where
    i: "i < length (signals (header file))" "signals (header file) ! i = sig"
      "\<forall>j < i. \<not> includesStr (toLowerCase (label (signals (header file) ! j))) keyword"
    and r: "removeUnfitted keyword file =
          Inr (if \<exists>v \<in> set (values file ! i). 0 < v then file
               else file\<lparr>header := (header file)
                                     \<lparr>signals := splice1 i (signals (header file)),
                                      signalCount := signalCount (header file) - 1\<rparr>,
                          values := splice1 i (values file)\<rparr>)"
    by blast
  let ?out = "if \<exists>v \<in> set (values file ! i). 0 < v then file
               else file\<lparr>header := (header file)
                                     \<lparr>signals := splice1 i (signals (header file)),
                                      signalCount := signalCount (header file) - 1\<rparr>,
                          values := splice1 i (values file)\<rparr>"
  from i(1) wf have iv: "i < length (values file)" by simp
  note ss = splice1_nth[OF i(1)]
  note sv = splice1_nth[OF iv]
  have changed: "file\<lparr>header := (header file)
                                     \<lparr>signals := splice1 i (signals (header file)),
                                      signalCount := signalCount (header file) - 1\<rparr>,
                          values := splice1 i (values file)\<rparr> \<noteq> file"
  proof
    assume "file\<lparr>header := (header file)
                                     \<lparr>signals := splice1 i (signals (header file)),
                                      signalCount := signalCount (header file) - 1\<rparr>,
                          values := splice1 i (values file)\<rparr> = file"
    then have "values (file\<lparr>header := (header file)
                                     \<lparr>signals := splice1 i (signals (header file)),
                                      signalCount := signalCount (header file) - 1\<rparr>,
                          values := splice1 i (values file)\<rparr>) = values file"
      by simp
    then have "length (splice1 i (values file)) = length (values file)" by simp
    with sv(1) iv show False by simp
  qed
  have iff: "(?out = file) = (\<exists>v \<in> set (values file ! i). 0 < v)"
    using changed by auto
  have rem: "\<not> (\<exists>v \<in> set (values file ! i). 0 < v) \<longrightarrow>
                 length (signals (header ?out)) = length (signals (header file)) - 1
               \<and> length (values ?out) = length (values file) - 1
               \<and> (\<forall>j < i. signals (header ?out) ! j = signals (header file) ! j
                          \<and> values ?out ! j = values file ! j)
               \<and> (\<forall>j. i \<le> j \<and> Suc j < length (signals (header file)) \<longrightarrow>
                        signals (header ?out) ! j = signals (header file) ! Suc j)
               \<and> (\<forall>j. i \<le> j \<and> Suc j < length (values file) \<longrightarrow>
                        values ?out ! j = values file ! Suc j)
               \<and> signalCount (header ?out) = signalCount (header file) - 1
               \<and> (header ?out)\<lparr>signals := signals (header file),
                               signalCount := signalCount (header file)\<rparr> = header file
               \<and> annotations ?out = annotations file"
    using ss sv by simp
  from i r iff rem
  show "\<exists>i out.
             i < length (signals (header file)) \<and> signals (header file) ! i = sig
           \<and> (\<forall>j < i. \<not> includesStr (toLowerCase (label (signals (header file) ! j))) keyword)
           \<and> removeUnfitted keyword file = Inr out
           \<and> ((out = file) = (\<exists>v \<in> set (values file ! i). 0 < v))
           \<and> (\<not> (\<exists>v \<in> set (values file ! i). 0 < v) \<longrightarrow>
                 length (signals (header out)) = length (signals (header file)) - 1
               \<and> length (values out) = length (values file) - 1
               \<and> (\<forall>j < i. signals (header out) ! j = signals (header file) ! j
                          \<and> values out ! j = values file ! j)
               \<and> (\<forall>j. i \<le> j \<and> Suc j < length (signals (header file)) \<longrightarrow>
                        signals (header out) ! j = signals (header file) ! Suc j)
               \<and> (\<forall>j. i \<le> j \<and> Suc j < length (values file) \<longrightarrow>
                        values out ! j = values file ! Suc j)
               \<and> signalCount (header out) = signalCount (header file) - 1
               \<and> (header out)\<lparr>signals := signals (header file),
                               signalCount := signalCount (header file)\<rparr> = header file
               \<and> annotations out = annotations file)"
    by (intro exI[of _ i] exI[of _ ?out] conjI)
qed

theorem postProcess_optional_channel_witness:
  "length (signals (header exampleOximetry)) \<le> length (values exampleOximetry)
   \<and> length (signals (header exampleOximetryKept)) \<le> length (values exampleOximetryKept)
   \<and> find (\<lambda>sig. includesStr (toLowerCase (label sig)) ''pulse'') (signals (header exampleOximetryKept))
        = Some (exampleSignal ''Pulse'' 4)
   \<and> removeUnfitted ''spo2'' exampleOximetry = Inr exampleOximetryKept
   \<and> removeUnfitted ''pulse'' exampleOximetryKept = Inr exampleOximetryKept
   \<and> postProcess exampleOximetry = Inr exampleOximetryKept
   \<and> (\<exists>i. i < length (signals (header exampleOximetryKept))
          \<and> signals (header exampleOximetryKept) ! i = exampleSignal ''Pulse'' 4
          \<and> (\<exists>v \<in> set (values exampleOximetryKept ! i). 0 < v))"
proof -
  have wf1: "length (signals (header exampleOximetry)) \<le> length (values exampleOximetry)"
    by (simp add: exampleOximetry_def exampleHeader_def)
  have wf2: "length (signals (header exampleOximetryKept)) \<le> length (values exampleOximetryKept)"
    by (simp add: exampleOximetryKept_def exampleHeader_def)
  have f: "find (\<lambda>sig. includesStr (toLowerCase (label sig)) ''pulse'') (signals (header exampleOximetryKept))
        = Some (exampleSignal ''Pulse'' 4)"
    by code_simp
  have e1: "removeUnfitted ''spo2'' exampleOximetry = Inr exampleOximetryKept" by code_simp
  have e2: "removeUnfitted ''pulse'' exampleOximetryKept = Inr exampleOximetryKept" by code_simp
  from postProcess_optional_channel[OF wf1] obtain mid out where
    "removeUnfitted ''spo2'' exampleOximetry = Inr mid" "removeUnfitted ''pulse'' mid = Inr out"
    "postProcess exampleOximetry = Inr out"
    by blast
  with e1 e2 have p: "postProcess exampleOximetry = Inr exampleOximetryKept" by simp
  from postProcess_optional_channel[OF wf2] f obtain i out where
    i: "i < length (signals (header exampleOximetryKept))"
      "signals (header exampleOximetryKept) ! i = exampleSignal ''Pulse'' 4"
    and o: "removeUnfitted ''pulse'' exampleOximetryKept = Inr out"
      "(out = exampleOximetryKept) = (\<exists>v \<in> set (values exampleOximetryKept ! i). 0 < v)"
    by blast
  from o e2 have "\<exists>v \<in> set (values exampleOximetryKept ! i). 0 < v" by simp
  with i have k: "\<exists>i. i < length (signals (header exampleOximetryKept))
          \<and> signals (header exampleOximetryKept) ! i = exampleSignal ''Pulse'' 4
          \<and> (\<exists>v \<in> set (values exampleOximetryKept ! i). 0 < v)"
    by blast
  from wf1 wf2 f e1 e2 p k show ?thesis by (intro conjI)
qed

section \<open>Two oximetry files evaluated\<close>

lemma leValue_zeros: "foldr (\<lambda>b acc. unat b + 256 * acc) (replicate n (0 :: byte)) 0 = 0"
  by (induction n) simp_all

lemma getUintLE_zeros:
  assumes "off + n \<le> m"
  shows "getUintLE n (replicate m 0 @ rest) off = Inr 0"
proof -
  from assms have t: "take n (drop off (replicate m 0 @ rest)) = replicate n 0" by simp
  from assms have l: "\<not> length (replicate m 0 @ rest) < off + n" by simp
  show ?thesis unfolding getUintLE_def t using l by (simp only: leValue_zeros if_False)
qed

lemma getUintLE_after_zeros:
  "getUintLE n (replicate m 0 @ rest) (m + k) = getUintLE n rest k"
  by (simp add: getUintLE_def)




lemma exampleThreeBytes_header:
  "parseHeader exampleThreeBytes
     = Inr (Some \<lparr>hiStart = (0, 0, 0, 0, 0, 0), hiSamples = 1, hiHeaderOffset = 0\<rparr>)"
proof -
  have z: "getUintLE 2 exampleThreeBytes 0 = Inr 0" "getUintLE 4 exampleThreeBytes 200 = Inr 0"
    "getUintLE 4 exampleThreeBytes 204 = Inr 0" "getUintLE 4 exampleThreeBytes 208 = Inr 0"
    "getUintLE 4 exampleThreeBytes 212 = Inr 0" "getUintLE 4 exampleThreeBytes 216 = Inr 0"
    "getUintLE 4 exampleThreeBytes 220 = Inr 0"
    unfolding exampleThreeBytes_def by (simp_all add: getUintLE_zeros)
  have "getUintLE 4 exampleThreeBytes (224 + 0) = Inr 1"
    unfolding exampleThreeBytes_def getUintLE_after_zeros by (simp add: getUintLE_def)
  then have s: "getUintLE 4 exampleThreeBytes 224 = Inr 1" by simp
  have l: "length exampleThreeBytes = 231" by (simp add: exampleThreeBytes_def)
  show ?thesis by (simp add: parseHeader_def bindE_def z s l)
qed

lemma exampleThreeBytes_bytes:
  "exampleThreeBytes ! 228 = 10" "exampleThreeBytes ! 229 = 20" "exampleThreeBytes ! 230 = 30"
  by (simp_all add: exampleThreeBytes_def nth_append)

lemma exampleThreeBytes_eval: "spo2LoadSession exampleThreeBytes = Inr [[20], [30]]"
proof -
  have l: "length exampleThreeBytes = 231" by (simp add: exampleThreeBytes_def)
  have g: "getUint8 exampleThreeBytes 229 = Inr 20" "getUint8 exampleThreeBytes 230 = Inr 30"
    by (simp_all add: getUint8_def jsTrunc_def l exampleThreeBytes_bytes)
  have "readRecords exampleThreeBytes 3 (Suc 0) 228 = Inr ([20], [30])"
    by (simp add: bindE_def g l Let_def)
  then have rr: "readRecords exampleThreeBytes 3 1 228 = Inr ([20], [30])"
    by (simp only: One_nat_def)
  have "spo2LoadSession exampleThreeBytes =
      bindE (readRecords exampleThreeBytes 3 1 228)
        (\<lambda>(valuesSpO2, valuesPulse). Inr [valuesSpO2, valuesPulse])"
    by (simp add: spo2LoadSession_def exampleThreeBytes_header bindE_def l
        del: readRecords.simps One_nat_def)
  then show ?thesis unfolding rr by (simp add: bindE_def)
qed

section \<open>Properties of the oximetry loader\<close>

lemma getUint8_in_range:
  assumes "0 \<le> c" and "c + 1 \<le> of_nat (length buf)"
  shows "getUint8 buf c = Inr (unat (buf ! nat \<lfloor>c\<rfloor>))" and "nat \<lfloor>c\<rfloor> < length buf"
proof -
  from assms(1) have t: "jsTrunc c = \<lfloor>c\<rfloor>" and f0: "0 \<le> \<lfloor>c\<rfloor>" by (simp_all add: jsTrunc_def)
  have "of_int \<lfloor>c\<rfloor> \<le> c" by (rule of_int_floor_le)
  with assms(2) have "(of_int \<lfloor>c\<rfloor> :: rat) + 1 \<le> of_nat (length buf)" by linarith
  then have "(of_int (\<lfloor>c\<rfloor> + 1) :: rat) \<le> of_int (int (length buf))" by simp
  then have le: "\<lfloor>c\<rfloor> + 1 \<le> int (length buf)" by (simp only: of_int_le_iff)
  with f0 show "nat \<lfloor>c\<rfloor> < length buf" by linarith
  from le f0 show "getUint8 buf c = Inr (unat (buf ! nat \<lfloor>c\<rfloor>))"
    by (simp add: getUint8_def t Let_def)
qed

lemma recordCursor_0:
  "recordCursor cursor bpr 0 = (if 2 < bpr then cursor + (bpr - 2) else cursor)"
  by (simp add: recordCursor_def)

lemma recordCursor_Suc:
  "recordCursor cursor bpr (Suc k) =
     recordCursor ((if 2 < bpr then cursor + (bpr - 2) else cursor) + 2) bpr k"
  by (simp add: recordCursor_def algebra_simps)


lemma readRecords_reads:
  assumes "0 \<le> cursor"
  shows "\<exists>vs vp. readRecords buf bpr n cursor = Inr (vs, vp)
     \<and> length vp = length vs \<and> length vs \<le> n
     \<and> (\<forall>k < length vs.
           recordCursor cursor bpr k + 2 \<le> of_nat (length buf)
         \<and> vs ! k = decodedSpO2 (unat (buf ! nat \<lfloor>recordCursor cursor bpr k\<rfloor>))
                               (unat (buf ! nat \<lfloor>recordCursor cursor bpr k + 1\<rfloor>))
         \<and> vp ! k = decodedPulse (unat (buf ! nat \<lfloor>recordCursor cursor bpr k\<rfloor>))
                                (unat (buf ! nat \<lfloor>recordCursor cursor bpr k + 1\<rfloor>)))
     \<and> (length vs < n \<longrightarrow> of_nat (length buf) < recordCursor cursor bpr (length vs) + 2)"
  using assms
proof (induction n arbitrary: cursor)
  case 0
  show ?case by simp
next
  case (Suc n)
  define c1 where "c1 = (if 2 < bpr then cursor + (bpr - 2) else cursor)"
  have c1: "0 \<le> c1" using Suc.prems by (simp add: c1_def)
  have rc0: "recordCursor cursor bpr 0 = c1" by (simp add: recordCursor_0 c1_def)
  have rcS: "recordCursor cursor bpr (Suc k) = recordCursor (c1 + 2) bpr k" for k
    by (simp add: recordCursor_Suc c1_def)
  have step: "readRecords buf bpr (Suc n) cursor =
     (if of_nat (length buf) < c1 + 2 then Inr ([], [])
      else
        bindE (getUint8 buf c1) (\<lambda>spo2.
        bindE (getUint8 buf (c1 + 1)) (\<lambda>pulse.
        bindE (readRecords buf bpr n (c1 + 2)) (\<lambda>(valuesSpO2, valuesPulse).
          if spo2 = 0x7f \<and> pulse = 0xff
          then Inr (0 # valuesSpO2, 0 # valuesPulse)
          else Inr (of_nat spo2 # valuesSpO2, of_nat pulse # valuesPulse)))))"
    by (simp add: c1_def Let_def)
  show ?case
  proof (cases "of_nat (length buf) < c1 + 2")
    case True
    then have "readRecords buf bpr (Suc n) cursor = Inr ([], [])" unfolding step by simp
    with True show ?thesis by (simp add: rc0)
  next
    case False
    then have fit: "c1 + 2 \<le> of_nat (length buf)" by simp
    define s where "s = unat (buf ! nat \<lfloor>c1\<rfloor>)"
    define p where "p = unat (buf ! nat \<lfloor>c1 + 1\<rfloor>)"
    have g1: "getUint8 buf c1 = Inr s" unfolding s_def using c1 fit
      by (intro getUint8_in_range) simp_all
    have g2: "getUint8 buf (c1 + 1) = Inr p" unfolding p_def using c1 fit
      by (intro getUint8_in_range) simp_all
    have c2: "0 \<le> c1 + 2" using c1 by simp
    from Suc.IH[OF c2] obtain vs vp where
      r: "readRecords buf bpr n (c1 + 2) = Inr (vs, vp)"
      and l: "length vp = length vs" "length vs \<le> n"
      and each: "\<forall>k < length vs.
           recordCursor (c1 + 2) bpr k + 2 \<le> of_nat (length buf)
         \<and> vs ! k = decodedSpO2 (unat (buf ! nat \<lfloor>recordCursor (c1 + 2) bpr k\<rfloor>))
                               (unat (buf ! nat \<lfloor>recordCursor (c1 + 2) bpr k + 1\<rfloor>))
         \<and> vp ! k = decodedPulse (unat (buf ! nat \<lfloor>recordCursor (c1 + 2) bpr k\<rfloor>))
                                (unat (buf ! nat \<lfloor>recordCursor (c1 + 2) bpr k + 1\<rfloor>))"
      and brk: "length vs < n \<longrightarrow> of_nat (length buf) < recordCursor (c1 + 2) bpr (length vs) + 2"
      by blast
    have res: "readRecords buf bpr (Suc n) cursor
       = Inr (decodedSpO2 s p # vs, decodedPulse s p # vp)"
      unfolding step using False g1 g2 r
      by (simp add: bindE_def decodedSpO2_def decodedPulse_def)
    have all: "\<forall>k < length (decodedSpO2 s p # vs).
           recordCursor cursor bpr k + 2 \<le> of_nat (length buf)
         \<and> (decodedSpO2 s p # vs) ! k
             = decodedSpO2 (unat (buf ! nat \<lfloor>recordCursor cursor bpr k\<rfloor>))
                               (unat (buf ! nat \<lfloor>recordCursor cursor bpr k + 1\<rfloor>))
         \<and> (decodedPulse s p # vp) ! k
             = decodedPulse (unat (buf ! nat \<lfloor>recordCursor cursor bpr k\<rfloor>))
                                (unat (buf ! nat \<lfloor>recordCursor cursor bpr k + 1\<rfloor>))"
    proof (intro allI impI)
      fix k assume k: "k < length (decodedSpO2 s p # vs)"
      show "recordCursor cursor bpr k + 2 \<le> of_nat (length buf)
         \<and> (decodedSpO2 s p # vs) ! k
             = decodedSpO2 (unat (buf ! nat \<lfloor>recordCursor cursor bpr k\<rfloor>))
                               (unat (buf ! nat \<lfloor>recordCursor cursor bpr k + 1\<rfloor>))
         \<and> (decodedPulse s p # vp) ! k
             = decodedPulse (unat (buf ! nat \<lfloor>recordCursor cursor bpr k\<rfloor>))
                                (unat (buf ! nat \<lfloor>recordCursor cursor bpr k + 1\<rfloor>))"
      proof (cases k)
        case 0
        with fit show ?thesis unfolding 0 rc0 by (simp add: s_def p_def)
      next
        case (Suc k')
        with k each show ?thesis unfolding Suc rcS by simp
      qed
    qed
    have brk': "length (decodedSpO2 s p # vs) < Suc n \<longrightarrow>
        of_nat (length buf) < recordCursor cursor bpr (length (decodedSpO2 s p # vs)) + 2"
      using brk by (simp add: rcS)
    from res l all brk' show ?thesis
      by (intro exI[of _ "decodedSpO2 s p # vs"] exI[of _ "decodedPulse s p # vp"]) simp
  qed
qed

lemma spo2LoadSession_parsed:
  "parseHeader buf = Inr (Some info) \<Longrightarrow>
   spo2LoadSession buf =
     bindE (readRecords buf
              ((of_nat (length buf) - of_nat (hiHeaderOffset info + 228)) / of_nat (hiSamples info))
              (hiSamples info) (of_nat (hiHeaderOffset info + 228)))
       (\<lambda>(valuesSpO2, valuesPulse). Inr [valuesSpO2, valuesPulse])"
  by (simp add: spo2LoadSession_def bindE_def Let_def)

lemma spo2LoadSession_reads:
  assumes ph: "parseHeader buf = Inr (Some info)"
  shows "\<exists>vs vp. spo2LoadSession buf = Inr [vs, vp]
     \<and> length vp = length vs \<and> length vs \<le> hiSamples info
     \<and> (\<forall>k < length vs.
           recordCursor (of_nat (hiHeaderOffset info + 228))
             ((of_nat (length buf) - of_nat (hiHeaderOffset info + 228)) / of_nat (hiSamples info)) k + 2
             \<le> of_nat (length buf)
         \<and> vs ! k = decodedSpO2
              (unat (buf ! nat \<lfloor>recordCursor (of_nat (hiHeaderOffset info + 228))
                 ((of_nat (length buf) - of_nat (hiHeaderOffset info + 228)) / of_nat (hiSamples info)) k\<rfloor>))
              (unat (buf ! nat \<lfloor>recordCursor (of_nat (hiHeaderOffset info + 228))
                 ((of_nat (length buf) - of_nat (hiHeaderOffset info + 228)) / of_nat (hiSamples info)) k + 1\<rfloor>))
         \<and> vp ! k = decodedPulse
              (unat (buf ! nat \<lfloor>recordCursor (of_nat (hiHeaderOffset info + 228))
                 ((of_nat (length buf) - of_nat (hiHeaderOffset info + 228)) / of_nat (hiSamples info)) k\<rfloor>))
              (unat (buf ! nat \<lfloor>recordCursor (of_nat (hiHeaderOffset info + 228))
                 ((of_nat (length buf) - of_nat (hiHeaderOffset info + 228)) / of_nat (hiSamples info)) k + 1\<rfloor>)))
     \<and> (length vs < hiSamples info \<longrightarrow>
          of_nat (length buf)
            < recordCursor (of_nat (hiHeaderOffset info + 228))
                ((of_nat (length buf) - of_nat (hiHeaderOffset info + 228)) / of_nat (hiSamples info))
                (length vs) + 2)"
proof -
  let ?base = "of_nat (hiHeaderOffset info + 228) :: rat"
  let ?bpr = "(of_nat (length buf) - ?base) / of_nat (hiSamples info)"
  have b0: "0 \<le> ?base" by simp
  from readRecords_reads[OF b0, of buf ?bpr "hiSamples info"] obtain vs vp where
    r: "readRecords buf ?bpr (hiSamples info) ?base = Inr (vs, vp)"
    and rest: "length vp = length vs \<and> length vs \<le> hiSamples info
     \<and> (\<forall>k < length vs.
           recordCursor ?base ?bpr k + 2 \<le> of_nat (length buf)
         \<and> vs ! k = decodedSpO2 (unat (buf ! nat \<lfloor>recordCursor ?base ?bpr k\<rfloor>))
                               (unat (buf ! nat \<lfloor>recordCursor ?base ?bpr k + 1\<rfloor>))
         \<and> vp ! k = decodedPulse (unat (buf ! nat \<lfloor>recordCursor ?base ?bpr k\<rfloor>))
                                (unat (buf ! nat \<lfloor>recordCursor ?base ?bpr k + 1\<rfloor>)))
     \<and> (length vs < hiSamples info \<longrightarrow> of_nat (length buf) < recordCursor ?base ?bpr (length vs) + 2)"
    by blast
  have "spo2LoadSession buf = Inr [vs, vp]"
    unfolding spo2LoadSession_parsed[OF ph] r by (simp add: bindE_def)
  with rest show ?thesis by blast
qed



lemma recordCursor_whole:
  assumes "2 \<le> B"
  shows "recordCursor (of_nat base) (of_nat B) k = of_nat (base + k * B + (B - 2))"
proof (cases "B = 2")
  case True
  then show ?thesis by (simp add: recordCursor_def)
next
  case False
  with assms have gt: "2 < B" by simp
  then have "(of_nat (B - 2) :: rat) = of_nat B - 2" by (simp add: of_nat_diff)
  with gt show ?thesis by (simp add: recordCursor_def algebra_simps)
qed

text \<open>
  C4, as amended. When the header parses, there is at least one sample and the payload
  after offset \<open>h + 228\<close> is a whole number \<open>bytesPerRecord\<close>, at least 2, of bytes for each
  sample, the loader returns one value of each channel for each sample, and the pair for
  record \<open>i\<close> comes from the last two bytes of the record, read as unsigned 8-bit integers:
  the SpO2 value from offset \<open>(h + 228) + i * bytesPerRecord + (bytesPerRecord - 2)\<close> and the
  pulse value from the offset after it. These are bytes 0 and 1 of the record when
  \<open>bytesPerRecord\<close> is 2.
\<close>

theorem spo2_record_offsets:
  assumes ph: "parseHeader buf = Inr (Some info)"
    and n: "0 < hiSamples info"
    and exact: "length buf = hiHeaderOffset info + 228 + hiSamples info * bytesPerRecord"
    and two: "2 \<le> bytesPerRecord"
  shows "\<exists>valuesSpO2 valuesPulse.
       spo2LoadSession buf = Inr [valuesSpO2, valuesPulse]
     \<and> length valuesSpO2 = hiSamples info \<and> length valuesPulse = hiSamples info
     \<and> (of_nat (length buf) - of_nat (hiHeaderOffset info + 228)) / of_nat (hiSamples info)
         = (of_nat bytesPerRecord :: rat)
     \<and> (\<forall>i < hiSamples info.
           hiHeaderOffset info + 228 + i * bytesPerRecord + (bytesPerRecord - 2) + 1 < length buf
         \<and> valuesSpO2 ! i =
             decodedSpO2
               (unat (buf ! (hiHeaderOffset info + 228 + i * bytesPerRecord + (bytesPerRecord - 2))))
               (unat (buf ! (hiHeaderOffset info + 228 + i * bytesPerRecord + (bytesPerRecord - 2) + 1)))
         \<and> valuesPulse ! i =
             decodedPulse
               (unat (buf ! (hiHeaderOffset info + 228 + i * bytesPerRecord + (bytesPerRecord - 2))))
               (unat (buf ! (hiHeaderOffset info + 228 + i * bytesPerRecord + (bytesPerRecord - 2) + 1))))"
proof -
  let ?h = "hiHeaderOffset info + 228"
  let ?n = "hiSamples info"
  let ?B = bytesPerRecord
  let ?base = "of_nat ?h :: rat"
  let ?bpr = "(of_nat (length buf) - ?base) / of_nat ?n"
  have "(of_nat (length buf) :: rat) - ?base = of_nat ?n * of_nat ?B"
    unfolding exact by simp
  with n have bpr: "?bpr = (of_nat ?B :: rat)" by simp
  have rc: "recordCursor ?base ?bpr k = of_nat (?h + k * ?B + (?B - 2))" for k
    unfolding bpr by (rule recordCursor_whole[OF two])
  have fl: "nat \<lfloor>recordCursor ?base ?bpr k\<rfloor> = ?h + k * ?B + (?B - 2)"
    "nat \<lfloor>recordCursor ?base ?bpr k + 1\<rfloor> = ?h + k * ?B + (?B - 2) + 1" for k
  proof -
    show "nat \<lfloor>recordCursor ?base ?bpr k\<rfloor> = ?h + k * ?B + (?B - 2)"
      unfolding rc by (simp only: floor_of_nat nat_int)
    have "(of_nat (?h + k * ?B + (?B - 2)) :: rat) + 1 = of_nat (?h + k * ?B + (?B - 2) + 1)"
      by simp
    then show "nat \<lfloor>recordCursor ?base ?bpr k + 1\<rfloor> = ?h + k * ?B + (?B - 2) + 1"
      unfolding rc by (simp only: floor_of_nat nat_int)
  qed
  from spo2LoadSession_reads[OF ph] obtain vs vp where
    r: "spo2LoadSession buf = Inr [vs, vp]" and l: "length vp = length vs" "length vs \<le> ?n"
    and each: "\<forall>k < length vs.
           recordCursor ?base ?bpr k + 2 \<le> of_nat (length buf)
         \<and> vs ! k = decodedSpO2 (unat (buf ! nat \<lfloor>recordCursor ?base ?bpr k\<rfloor>))
                               (unat (buf ! nat \<lfloor>recordCursor ?base ?bpr k + 1\<rfloor>))
         \<and> vp ! k = decodedPulse (unat (buf ! nat \<lfloor>recordCursor ?base ?bpr k\<rfloor>))
                                (unat (buf ! nat \<lfloor>recordCursor ?base ?bpr k + 1\<rfloor>))"
    and brk: "length vs < ?n \<longrightarrow> of_nat (length buf) < recordCursor ?base ?bpr (length vs) + 2"
    by blast
  have full: "length vs = ?n"
  proof (rule ccontr)
    assume "length vs \<noteq> ?n"
    with l have lt: "length vs < ?n" by simp
    with brk have "(of_nat (length buf) :: rat) < of_nat (?h + length vs * ?B + (?B - 2)) + 2"
      unfolding rc by simp
    then have "(of_nat (length buf) :: rat) < of_nat (?h + length vs * ?B + (?B - 2) + 2)"
      by simp
    then have "length buf < ?h + length vs * ?B + (?B - 2) + 2" by (simp only: of_nat_less_iff)
    with two have "length buf < ?h + Suc (length vs) * ?B" by simp
    moreover from lt have "Suc (length vs) * ?B \<le> ?n * ?B" by (intro mult_le_mono1) simp
    ultimately show False using exact by simp
  qed
  have rows: "\<forall>i < ?n.
           ?h + i * ?B + (?B - 2) + 1 < length buf
         \<and> vs ! i = decodedSpO2 (unat (buf ! (?h + i * ?B + (?B - 2))))
                               (unat (buf ! (?h + i * ?B + (?B - 2) + 1)))
         \<and> vp ! i = decodedPulse (unat (buf ! (?h + i * ?B + (?B - 2))))
                                (unat (buf ! (?h + i * ?B + (?B - 2) + 1)))"
  proof (intro allI impI)
    fix i assume i: "i < ?n"
    with each full have
      fit: "recordCursor ?base ?bpr i + 2 \<le> of_nat (length buf)"
      and v: "vs ! i = decodedSpO2 (unat (buf ! nat \<lfloor>recordCursor ?base ?bpr i\<rfloor>))
                               (unat (buf ! nat \<lfloor>recordCursor ?base ?bpr i + 1\<rfloor>))"
        "vp ! i = decodedPulse (unat (buf ! nat \<lfloor>recordCursor ?base ?bpr i\<rfloor>))
                                (unat (buf ! nat \<lfloor>recordCursor ?base ?bpr i + 1\<rfloor>))"
      by simp_all
    from fit have "(of_nat (?h + i * ?B + (?B - 2) + 2) :: rat) \<le> of_nat (length buf)"
      unfolding rc by simp
    then have "?h + i * ?B + (?B - 2) + 2 \<le> length buf" by (simp only: of_nat_le_iff)
    then have "?h + i * ?B + (?B - 2) + 1 < length buf" by simp
    with v show "?h + i * ?B + (?B - 2) + 1 < length buf
         \<and> vs ! i = decodedSpO2 (unat (buf ! (?h + i * ?B + (?B - 2))))
                               (unat (buf ! (?h + i * ?B + (?B - 2) + 1)))
         \<and> vp ! i = decodedPulse (unat (buf ! (?h + i * ?B + (?B - 2))))
                                (unat (buf ! (?h + i * ?B + (?B - 2) + 1)))"
      unfolding fl by simp
  qed
  from r full l bpr rows show ?thesis by (intro exI[of _ vs] exI[of _ vp]) simp
qed

theorem spo2_record_offsets_witness:
  "parseHeader exampleThreeBytes
     = Inr (Some \<lparr>hiStart = (0, 0, 0, 0, 0, 0), hiSamples = 1, hiHeaderOffset = 0\<rparr>)
   \<and> length exampleThreeBytes = 0 + 228 + 1 * 3
   \<and> (2 :: nat) \<le> 3
   \<and> spo2LoadSession exampleThreeBytes = Inr [[20], [30]]
   \<and> exampleThreeBytes ! (0 + 228 + 0 * 3 + (3 - 2)) = 20
   \<and> exampleThreeBytes ! (0 + 228 + 0 * 3 + (3 - 2) + 1) = 30
   \<and> (\<exists>valuesSpO2 valuesPulse.
         spo2LoadSession exampleThreeBytes = Inr [valuesSpO2, valuesPulse]
       \<and> length valuesSpO2 = 1 \<and> length valuesPulse = 1
       \<and> valuesSpO2 ! 0 =
           decodedSpO2 (unat (exampleThreeBytes ! (0 + 228 + 0 * 3 + (3 - 2))))
             (unat (exampleThreeBytes ! (0 + 228 + 0 * 3 + (3 - 2) + 1)))
       \<and> valuesPulse ! 0 =
           decodedPulse (unat (exampleThreeBytes ! (0 + 228 + 0 * 3 + (3 - 2))))
             (unat (exampleThreeBytes ! (0 + 228 + 0 * 3 + (3 - 2) + 1))))"
proof -
  let ?info = "\<lparr>hiStart = (0, 0, 0, 0, 0, 0), hiSamples = 1, hiHeaderOffset = 0\<rparr>"
  note ph = exampleThreeBytes_header
  have n: "0 < hiSamples ?info" by simp
  have ex: "length exampleThreeBytes = hiHeaderOffset ?info + 228 + hiSamples ?info * 3"
    by (simp add: exampleThreeBytes_def)
  have two: "(2 :: nat) \<le> 3" by simp
  have b: "exampleThreeBytes ! (0 + 228 + 0 * 3 + (3 - 2)) = 20"
    "exampleThreeBytes ! (0 + 228 + 0 * 3 + (3 - 2) + 1) = 30"
    by (simp_all add: exampleThreeBytes_bytes)
  from spo2_record_offsets[OF ph n ex two] obtain vs vp where
    "spo2LoadSession exampleThreeBytes = Inr [vs, vp]"
    "length vs = hiSamples ?info" "length vp = hiSamples ?info"
    "\<forall>i < hiSamples ?info.
           hiHeaderOffset ?info + 228 + i * 3 + (3 - 2) + 1 < length exampleThreeBytes
         \<and> vs ! i =
             decodedSpO2
               (unat (exampleThreeBytes ! (hiHeaderOffset ?info + 228 + i * 3 + (3 - 2))))
               (unat (exampleThreeBytes ! (hiHeaderOffset ?info + 228 + i * 3 + (3 - 2) + 1)))
         \<and> vp ! i =
             decodedPulse
               (unat (exampleThreeBytes ! (hiHeaderOffset ?info + 228 + i * 3 + (3 - 2))))
               (unat (exampleThreeBytes ! (hiHeaderOffset ?info + 228 + i * 3 + (3 - 2) + 1)))"
    by blast
  then have "\<exists>valuesSpO2 valuesPulse.
         spo2LoadSession exampleThreeBytes = Inr [valuesSpO2, valuesPulse]
       \<and> length valuesSpO2 = 1 \<and> length valuesPulse = 1
       \<and> valuesSpO2 ! 0 =
           decodedSpO2 (unat (exampleThreeBytes ! (0 + 228 + 0 * 3 + (3 - 2))))
             (unat (exampleThreeBytes ! (0 + 228 + 0 * 3 + (3 - 2) + 1)))
       \<and> valuesPulse ! 0 =
           decodedPulse (unat (exampleThreeBytes ! (0 + 228 + 0 * 3 + (3 - 2))))
             (unat (exampleThreeBytes ! (0 + 228 + 0 * 3 + (3 - 2) + 1)))"
    by (intro exI[of _ vs] exI[of _ vp]) simp
  moreover have "length exampleThreeBytes = 0 + 228 + 1 * 3" using ex by simp
  ultimately show ?thesis using ph two exampleThreeBytes_eval b by (intro conjI)
qed

text \<open>
  C4 as stated fails for a record of more than two bytes. The file of the example has one
  sample and three bytes after offset 228, so \<open>bytesPerRecord\<close> is 3; bytes 0 and 1 of the
  record, at offsets 228 and 229, are 10 and 20, and the loader returns 20 and 30, the
  bytes at offsets 229 and 230.
\<close>

theorem spo2_record_offsets_counterexample:
  "parseHeader exampleThreeBytes
     = Inr (Some \<lparr>hiStart = (0, 0, 0, 0, 0, 0), hiSamples = 1, hiHeaderOffset = 0\<rparr>)
   \<and> (of_nat (length exampleThreeBytes) - (0 + 228)) / 1 = (3 :: rat)
   \<and> unat (exampleThreeBytes ! (0 + 228 + 0 * 3 + 0)) = 10
   \<and> unat (exampleThreeBytes ! (0 + 228 + 0 * 3 + 1)) = 20
   \<and> spo2LoadSession exampleThreeBytes = Inr [[20], [30]]
   \<and> spo2LoadSession exampleThreeBytes
       \<noteq> Inr [[of_nat (unat (exampleThreeBytes ! (0 + 228 + 0 * 3 + 0)))],
               [of_nat (unat (exampleThreeBytes ! (0 + 228 + 0 * 3 + 1)))]]"
proof -
  have l: "(of_nat (length exampleThreeBytes) - (0 + 228)) / 1 = (3 :: rat)"
    by (simp add: exampleThreeBytes_def)
  have b: "unat (exampleThreeBytes ! (0 + 228 + 0 * 3 + 0)) = 10"
    "unat (exampleThreeBytes ! (0 + 228 + 0 * 3 + 1)) = 20"
    by (simp_all add: exampleThreeBytes_bytes)
  have ne: "spo2LoadSession exampleThreeBytes
       \<noteq> Inr [[of_nat (unat (exampleThreeBytes ! (0 + 228 + 0 * 3 + 0)))],
               [of_nat (unat (exampleThreeBytes ! (0 + 228 + 0 * 3 + 1)))]]"
    unfolding exampleThreeBytes_eval b by simp
  from exampleThreeBytes_header l b exampleThreeBytes_eval ne show ?thesis by (intro conjI)
qed


end
